theory Spec2Isabelle
  imports Main
begin


section \<open>The falling-block engine of tetris-golang\<close>

text \<open>
  A shallow embedding of the game-state engine of \<^verbatim>\<open>main.go\<close>, the geometry helpers
  (\<^verbatim>\<open>isWithinBoard\<close>, \<^verbatim>\<open>getTopOffset\<close>, \<^verbatim>\<open>getShapeDimensions\<close>,
  \<^verbatim>\<open>findFirstNonEmptyColumn\<close>) and the tables of \<^verbatim>\<open>constants.go\<close>.

  \<^item> Go's \<^verbatim>\<open>int\<close> is modelled as \<open>int\<close> with the 64-bit two's-complement wrap-around
    written out (\<open>i64\<close>) at every addition, subtraction and negation of a coordinate.
  \<^item> The board \<^verbatim>\<open>[gameGridHeight][gameGridWidth]ShapeState\<close> is a list of rows; a
    well-formed board has 20 rows of 10 cells.
  \<^item> A run-time panic (index out of range) is the \<open>Inl\<close> branch of a result.
  \<^item> The screen, the mutex and the context are left out; \<^verbatim>\<open>g.cancel()\<close> sets the
    flag \<open>cancelled\<close>. The draws of \<^verbatim>\<open>rand.Intn\<close> are arguments.
\<close>

subsection \<open>Constants and tables (constants.go)\<close>

datatype ShapeState = EmptyState | FallingState | FixedState

definition gameGridWidth :: int where
  "gameGridWidth = 10"

definition gameGridHeight :: int where
  "gameGridHeight = 20"

definition shapes :: "int list list" where
  "shapes =
    [[0x0F00, 0x2222, 0x0F00, 0x2222],
     [0x6600, 0x6600, 0x6600, 0x6600],
     [0x4C40, 0x4E00, 0xC880, 0xE400],
     [0x06C0, 0x8C40, 0x6C00, 0x4620],
     [0x0C60, 0x4C80, 0xC600, 0x2640],
     [0x44C0, 0x8E00, 0xE880, 0xC440],
     [0x4460, 0x0E80, 0xC440, 0x2E00]]"

subsection \<open>Machine integers\<close>

definition i64 :: "int \<Rightarrow> int" where
  "i64 v = (v + 2 ^ 63) mod 2 ^ 64 - 2 ^ 63"

definition is_i64 :: "int \<Rightarrow> bool" where
  "is_i64 v = (- (2 ^ 63) \<le> v \<and> v < 2 ^ 63)"

definition add64 :: "int \<Rightarrow> int \<Rightarrow> int" where
  "add64 a b = i64 (a + b)"

definition sub64 :: "int \<Rightarrow> int \<Rightarrow> int" where
  "sub64 a b = i64 (a - b)"

definition neg64 :: "int \<Rightarrow> int" where
  "neg64 a = i64 (- a)"

subsection \<open>Data model (main.go)\<close>

text \<open>The fields \<^verbatim>\<open>x\<close> and \<^verbatim>\<open>y\<close> of \<^verbatim>\<open>Position\<close> are named \<open>posX\<close> and \<open>posY\<close>.\<close>

record Shape =
  shape :: int
  pos :: int
  state :: ShapeState

record Position =
  posX :: int
  posY :: int
  oldX :: int
  oldY :: int

record Piece =
  Shape :: Shape
  Position :: Position
  PreviousShape :: Shape

type_synonym Board = "ShapeState list list"

record Game =
  piece :: Piece
  board :: Board
  cancelled :: bool

datatype error = BoardIndexOutOfRange | ShapeIndexOutOfRange

definition wf_board :: "Board \<Rightarrow> bool" where
  "wf_board b = (length b = nat gameGridHeight \<and> list_all (\<lambda>row. length row = nat gameGridWidth) b)"

definition emptyBoard :: Board where
  "emptyBoard = replicate (nat gameGridHeight) (replicate (nat gameGridWidth) EmptyState)"

text \<open>Field paths of the game, as abbreviations.\<close>

abbreviation curShape :: "Game \<Rightarrow> int" where
  "curShape g \<equiv> shape (Shape (piece g))"

abbreviation curPos :: "Game \<Rightarrow> int" where
  "curPos g \<equiv> pos (Shape (piece g))"

abbreviation curState :: "Game \<Rightarrow> ShapeState" where
  "curState g \<equiv> state (Shape (piece g))"

abbreviation curX :: "Game \<Rightarrow> int" where
  "curX g \<equiv> posX (Position (piece g))"

abbreviation curY :: "Game \<Rightarrow> int" where
  "curY g \<equiv> posY (Position (piece g))"

abbreviation setX :: "int \<Rightarrow> Game \<Rightarrow> Game" where
  "setX v g \<equiv> g\<lparr>piece := (piece g)\<lparr>Position := (Position (piece g))\<lparr>posX := v\<rparr>\<rparr>\<rparr>"

abbreviation setY :: "int \<Rightarrow> Game \<Rightarrow> Game" where
  "setY v g \<equiv> g\<lparr>piece := (piece g)\<lparr>Position := (Position (piece g))\<lparr>posY := v\<rparr>\<rparr>\<rparr>"

abbreviation setPos :: "int \<Rightarrow> Game \<Rightarrow> Game" where
  "setPos v g \<equiv> g\<lparr>piece := (piece g)\<lparr>Shape := (Shape (piece g))\<lparr>pos := v\<rparr>\<rparr>\<rparr>"

abbreviation setState :: "ShapeState \<Rightarrow> Game \<Rightarrow> Game" where
  "setState v g \<equiv> g\<lparr>piece := (piece g)\<lparr>Shape := (Shape (piece g))\<lparr>state := v\<rparr>\<rparr>\<rparr>"

subsection \<open>Geometry helpers\<close>

definition isWithinBoard :: "int \<Rightarrow> int \<Rightarrow> bool" where
  "isWithinBoard xx yy =
     (if xx \<ge> 0 \<and> xx < gameGridWidth \<and> yy \<ge> 0 \<and> yy < gameGridHeight then True else False)"

text \<open>\<^verbatim>\<open>for i := 3; i >= 0; i--\<close>: the loop runs over the list \<open>[3, 2, 1, 0]\<close>.\<close>

fun getTopOffset_loop :: "int \<Rightarrow> nat list \<Rightarrow> int" where
  "getTopOffset_loop m [] = 0"
| "getTopOffset_loop m (i # is) =
     (if and (drop_bit (i * 4) m) 0xF \<noteq> 0 then 3 - int i else getTopOffset_loop m is)"

definition getTopOffset :: "int \<Rightarrow> int" where
  "getTopOffset m = getTopOffset_loop m (rev [0..<4])"

definition getShapeDimensions :: "int \<Rightarrow> int" where
  "getShapeDimensions m =
     (case fold (\<lambda>i (minX, maxX).
                   if and m (push_bit i 1) \<noteq> 0
                   then (let c = int (i mod 4)
                         in (if c < minX then c else minX, if c > maxX then c else maxX))
                   else (minX, maxX))
                [0..<16] (4, 0)
      of (minX, maxX) \<Rightarrow> maxX - minX + 1)"

definition findFirstNonEmptyColumn :: "int \<Rightarrow> int" where
  "findFirstNonEmptyColumn m =
     fold (\<lambda>i columnIndex.
             if and m (push_bit (15 - i) 1) \<noteq> 0
             then (let col = int (i mod 4) in if columnIndex > col then col else columnIndex)
             else columnIndex)
          [0..<16] 4"

text \<open>\<^verbatim>\<open>shapes[s][p]\<close> panics when an index is out of range.\<close>

definition lookupShape :: "int \<Rightarrow> int \<Rightarrow> error + int" where
  "lookupShape s p =
     (if 0 \<le> s \<and> s < int (length shapes)
      then (if 0 \<le> p \<and> p < int (length (shapes ! nat s))
            then Inr (shapes ! nat s ! nat p)
            else Inl ShapeIndexOutOfRange)
      else Inl ShapeIndexOutOfRange)"

subsection \<open>Board operations\<close>

text \<open>
  An indexed read or write of \<^verbatim>\<open>g.board[yy][xx]\<close> with computed indices: Go panics
  when an index is outside the array.
\<close>

definition board_get :: "Board \<Rightarrow> int \<Rightarrow> int \<Rightarrow> error + ShapeState" where
  "board_get b yy xx =
     (if 0 \<le> yy \<and> yy < gameGridHeight \<and> 0 \<le> xx \<and> xx < gameGridWidth
      then Inr (b ! nat yy ! nat xx)
      else Inl BoardIndexOutOfRange)"

definition board_set :: "Board \<Rightarrow> int \<Rightarrow> int \<Rightarrow> ShapeState \<Rightarrow> error + Board" where
  "board_set b yy xx v =
     (if 0 \<le> yy \<and> yy < gameGridHeight \<and> 0 \<le> xx \<and> xx < gameGridWidth
      then Inr (b[nat yy := (b ! nat yy)[nat xx := v]])
      else Inl BoardIndexOutOfRange)"

fun fixPiece_loop :: "int \<Rightarrow> int \<Rightarrow> int \<Rightarrow> ShapeState \<Rightarrow> nat list \<Rightarrow> Board \<Rightarrow> error + Board" where
  "fixPiece_loop m x y val [] b = Inr b"
| "fixPiece_loop m x y val (i # is) b =
     (if and m (push_bit (15 - i) 1) \<noteq> 0
      then (let xx = add64 x (int (i mod 4)); yy = add64 y (int (i div 4))
            in if xx \<ge> 0 \<and> xx < gameGridWidth \<and> yy \<ge> 0 \<and> yy < gameGridHeight
               then (case board_set b yy xx val of
                       Inl e \<Rightarrow> Inl e
                     | Inr b' \<Rightarrow> fixPiece_loop m x y val is b')
               else fixPiece_loop m x y val is b)
      else fixPiece_loop m x y val is b)"

definition fixPiece :: "Game \<Rightarrow> int \<Rightarrow> int \<Rightarrow> int \<Rightarrow> ShapeState \<Rightarrow> error + Game" where
  "fixPiece g m x y val =
     (case fixPiece_loop m x y val [0..<16] (board g) of
        Inl e \<Rightarrow> Inl e
      | Inr b' \<Rightarrow> Inr (g\<lparr>board := b'\<rparr>))"

fun hasCollision_loop :: "Board \<Rightarrow> int \<Rightarrow> int \<Rightarrow> int \<Rightarrow> nat list \<Rightarrow> error + bool" where
  "hasCollision_loop b m x y [] = Inr False"
| "hasCollision_loop b m x y (i # is) =
     (if and m (push_bit (15 - i) 1) \<noteq> 0
      then (let xx = add64 x (int (i mod 4)); yy = add64 y (int (i div 4))
            in if \<not> isWithinBoard xx yy then Inr True
               else (case board_get b yy xx of
                       Inl e \<Rightarrow> Inl e
                     | Inr c \<Rightarrow> if c = FixedState then Inr True
                                else hasCollision_loop b m x y is))
      else hasCollision_loop b m x y is)"

definition hasCollision :: "Game \<Rightarrow> int \<Rightarrow> int \<Rightarrow> int \<Rightarrow> error + bool" where
  "hasCollision g x y p =
     (case lookupShape (curShape g) p of
        Inl e \<Rightarrow> Inl e
      | Inr m \<Rightarrow> hasCollision_loop (board g) m x y [0..<16])"

text \<open>
  \<^verbatim>\<open>removeFullLines\<close>: every index is a loop counter below the array bound, so the
  reads and writes are plain list accesses.
\<close>

fun rowIsFull :: "Board \<Rightarrow> nat \<Rightarrow> nat list \<Rightarrow> bool" where
  "rowIsFull b y [] = True"
| "rowIsFull b y (x # xs) = (if b ! y ! x \<noteq> FixedState then False else rowIsFull b y xs)"

definition copyLineDown :: "nat \<Rightarrow> Board \<Rightarrow> Board" where
  "copyLineDown yy b =
     fold (\<lambda>xx b. b[yy := (b ! yy)[xx := b ! (yy - 1) ! xx]]) [0..<nat gameGridWidth] b"

definition shiftLinesDown :: "nat \<Rightarrow> Board \<Rightarrow> Board" where
  "shiftLinesDown y b = fold copyLineDown (rev [1..<Suc y]) b"

definition clearTopLine :: "Board \<Rightarrow> Board" where
  "clearTopLine b = fold (\<lambda>x b. b[0 := (b ! 0)[x := EmptyState]]) [0..<nat gameGridWidth] b"

definition removeFullLines_step :: "nat \<Rightarrow> Board \<Rightarrow> Board" where
  "removeFullLines_step y b =
     (if rowIsFull b y [0..<nat gameGridWidth] then clearTopLine (shiftLinesDown y b) else b)"

definition removeFullLines :: "Game \<Rightarrow> Game" where
  "removeFullLines g = g\<lparr>board := fold removeFullLines_step [0..<nat gameGridHeight] (board g)\<rparr>"

subsection \<open>The piece controller\<close>

text \<open>\<open>s\<close> and \<open>p\<close> are the results of \<^verbatim>\<open>rand.Intn(1)\<close> and \<^verbatim>\<open>rand.Intn(4)\<close>.\<close>

definition newPiece :: "Game \<Rightarrow> int \<Rightarrow> int \<Rightarrow> error + Game" where
  "newPiece g s p =
     (case lookupShape s p of
        Inl e \<Rightarrow> Inl e
      | Inr m \<Rightarrow>
          (let x = neg64 (findFirstNonEmptyColumn m); y = neg64 (getTopOffset m)
           in Inr (g\<lparr>piece :=
                \<lparr>Shape = \<lparr>shape = s, pos = p, state = FallingState\<rparr>,
                 Position = \<lparr>posX = x, posY = y, oldX = x, oldY = y\<rparr>,
                 PreviousShape = \<lparr>shape = s, pos = p, state = EmptyState\<rparr>\<rparr>\<rparr>)))"

text \<open>\<^verbatim>\<open>newGame\<close>: the piece pointer is nil until \<^verbatim>\<open>newPiece\<close> sets it; \<^verbatim>\<open>newPiece\<close> never reads it.\<close>

definition newGame :: "int \<Rightarrow> int \<Rightarrow> error + Game" where
  "newGame s p =
     newPiece \<lparr>piece = \<lparr>Shape = \<lparr>shape = 0, pos = 0, state = EmptyState\<rparr>,
                        Position = \<lparr>posX = 0, posY = 0, oldX = 0, oldY = 0\<rparr>,
                        PreviousShape = \<lparr>shape = 0, pos = 0, state = EmptyState\<rparr>\<rparr>,
               board = emptyBoard, cancelled = False\<rparr> s p"

definition moveShape :: "Game \<Rightarrow> error + Game" where
  "moveShape g =
     (case lookupShape (shape (PreviousShape (piece g))) (pos (PreviousShape (piece g))) of
        Inl e \<Rightarrow> Inl e
      | Inr oldShape \<Rightarrow>
     (case fixPiece g oldShape (oldX (Position (piece g))) (oldY (Position (piece g))) EmptyState of
        Inl e \<Rightarrow> Inl e
      | Inr g1 \<Rightarrow>
     (case lookupShape (curShape g1) (curPos g1) of
        Inl e \<Rightarrow> Inl e
      | Inr current \<Rightarrow>
     (case fixPiece g1 current (curX g1) (curY g1) (curState g1) of
        Inl e \<Rightarrow> Inl e
      | Inr g2 \<Rightarrow>
          Inr (g2\<lparr>piece := (piece g2)
                 \<lparr>Position := (Position (piece g2))\<lparr>oldX := curX g2, oldY := curY g2\<rparr>,
                  PreviousShape := (PreviousShape (piece g2))\<lparr>shape := curShape g2, pos := curPos g2\<rparr>\<rparr>\<rparr>)))))"

definition tick :: "Game \<Rightarrow> error + Game" where
  "tick g = (case moveShape g of Inl e \<Rightarrow> Inl e | Inr g1 \<Rightarrow> Inr (removeFullLines g1))"

definition moveLeft :: "Game \<Rightarrow> error + Game" where
  "moveLeft g =
     (case lookupShape (curShape g) (curPos g) of
        Inl e \<Rightarrow> Inl e
      | Inr m \<Rightarrow>
          (let d = findFirstNonEmptyColumn m
           in if sub64 (add64 (curX g) d) 1 \<ge> 0
              then (case hasCollision g (sub64 (curX g) 1) (curY g) (curPos g) of
                      Inl e \<Rightarrow> Inl e
                    | Inr c \<Rightarrow> if \<not> c then tick (setX (sub64 (curX g) 1) g) else tick g)
              else tick g))"

definition moveRight :: "Game \<Rightarrow> error + Game" where
  "moveRight g =
     (case lookupShape (curShape g) (curPos g) of
        Inl e \<Rightarrow> Inl e
      | Inr m \<Rightarrow>
          (let width = getShapeDimensions m;
               x = add64 (curX g) (findFirstNonEmptyColumn m)
           in if add64 x width < gameGridWidth
              then (case hasCollision g (add64 (curX g) 1) (curY g) (curPos g) of
                      Inl e \<Rightarrow> Inl e
                    | Inr c \<Rightarrow> if \<not> c then tick (setX (add64 (curX g) 1) g) else tick g)
              else tick g))"

text \<open>The tail of \<^verbatim>\<open>moveDown\<close> after the collision test (lines 238 to 242).\<close>

definition moveDown_commit :: "Game \<Rightarrow> int \<Rightarrow> int \<Rightarrow> error + Game" where
  "moveDown_commit g s p =
     (if curState g = FixedState
      then (case tick g of
              Inl e \<Rightarrow> Inl e
            | Inr g1 \<Rightarrow> (case newPiece g1 s p of Inl e \<Rightarrow> Inl e | Inr g2 \<Rightarrow> tick g2))
      else tick g)"

definition moveDown :: "Game \<Rightarrow> int \<Rightarrow> int \<Rightarrow> error + Game" where
  "moveDown g s p =
     (case hasCollision g (curX g) (add64 (curY g) 1) (curPos g) of
        Inl e \<Rightarrow> Inl e
      | Inr c \<Rightarrow>
          if c
          then (case lookupShape (curShape g) (curPos g) of
                  Inl e \<Rightarrow> Inl e
                | Inr m \<Rightarrow>
                    if curY g = neg64 (getTopOffset m)
                    then Inr (g\<lparr>cancelled := True\<rparr>)
                    else moveDown_commit (setState FixedState g) s p)
          else moveDown_commit (setY (add64 (curY g) 1) (setState FallingState g)) s p)"

text \<open>
  The wall-kick search of \<^verbatim>\<open>rotate\<close>:
  \<^verbatim>\<open>for x + findFirstNonEmptyColumn(..) >= 0 && g.hasCollision(x, y, pos) { x-- }\<close>.
\<close>

function kickLeft :: "Game \<Rightarrow> error + Game" where
  "kickLeft g =
     (case lookupShape (curShape g) (curPos g) of
        Inl e \<Rightarrow> Inl e
      | Inr m \<Rightarrow>
          if add64 (curX g) (findFirstNonEmptyColumn m) \<ge> 0
          then (case hasCollision g (curX g) (curY g) (curPos g) of
                  Inl e \<Rightarrow> Inl e
                | Inr c \<Rightarrow> if c then kickLeft (setX (sub64 (curX g) 1) g) else Inr g)
          else Inr g)"
  by pat_completeness auto

text \<open>Go's \<^verbatim>\<open>%\<close> truncates towards zero.\<close>

definition goMod :: "int \<Rightarrow> int \<Rightarrow> int" where
  "goMod a b = (if a \<ge> 0 then a mod \<bar>b\<bar> else - ((- a) mod \<bar>b\<bar>))"

definition rotate :: "Game \<Rightarrow> error + Game" where
  "rotate g =
     (case lookupShape (curShape g) (curPos g) of
        Inl e \<Rightarrow> Inl e
      | Inr m0 \<Rightarrow>
     (let startY = add64 (curY g) (getTopOffset m0);
          startX = add64 (curX g) (findFirstNonEmptyColumn m0);
          g1 = setPos (goMod (add64 (curPos g) 1) 4) g
      in case lookupShape (curShape g1) (curPos g1) of
        Inl e \<Rightarrow> Inl e
      | Inr m1 \<Rightarrow>
     (let g2 = setY (sub64 startY (getTopOffset m1))
                 (setX (sub64 startX (findFirstNonEmptyColumn m1)) g1)
      in case kickLeft g2 of
        Inl e \<Rightarrow> Inl e
      | Inr g3 \<Rightarrow>
     (case hasCollision g3 (curX g3) (curY g3) (curPos g3) of
        Inl e \<Rightarrow> Inl e
      | Inr c \<Rightarrow>
          if c
          then tick (setY (oldY (Position (piece g3)))
                      (setX (oldX (Position (piece g3)))
                        (setPos (pos (PreviousShape (piece g3))) g3)))
          else (case moveShape g3 of Inl e \<Rightarrow> Inl e | Inr g4 \<Rightarrow> tick g4)))))"

subsection \<open>Reachable game states\<close>

text \<open>
  \<^verbatim>\<open>main\<close> builds the game with \<^verbatim>\<open>newGame\<close>, \<^verbatim>\<open>runGameLoop\<close> calls \<^verbatim>\<open>tick\<close> once and
  then runs the command handlers in some order. \<^verbatim>\<open>rand.Intn(1)\<close> is always 0 and
  \<^verbatim>\<open>rand.Intn(4)\<close> is one of 0, 1, 2, 3.
\<close>

inductive reachable :: "Game \<Rightarrow> bool" where
  start: "0 \<le> p \<Longrightarrow> p < 4 \<Longrightarrow> newGame 0 p = Inr g0 \<Longrightarrow> tick g0 = Inr g \<Longrightarrow> reachable g"
| left: "reachable g \<Longrightarrow> moveLeft g = Inr g' \<Longrightarrow> reachable g'"
| right: "reachable g \<Longrightarrow> moveRight g = Inr g' \<Longrightarrow> reachable g'"
| down: "reachable g \<Longrightarrow> 0 \<le> p \<Longrightarrow> p < 4 \<Longrightarrow> moveDown g 0 p = Inr g' \<Longrightarrow> reachable g'"
| up: "reachable g \<Longrightarrow> rotate g = Inr g' \<Longrightarrow> reachable g'"
| quit: "reachable g \<Longrightarrow> reachable (g\<lparr>cancelled := True\<rparr>)"

subsection \<open>Reference notions for the statements\<close>

text \<open>
  The cells of a mask by direct inspection of its bits: bit \<open>15 - i\<close> is the cell in
  column \<open>i mod 4\<close> and row \<open>i div 4\<close> of the 4 by 4 box.
\<close>

definition cellSet :: "int \<Rightarrow> nat \<Rightarrow> nat \<Rightarrow> bool" where
  "cellSet m c r = bit m (15 - (4 * r + c))"

definition occupiedCols :: "int \<Rightarrow> nat set" where
  "occupiedCols m = {c \<in> {0..<4}. \<exists>r \<in> {0..<4}. cellSet m c r}"

definition occupiedRows :: "int \<Rightarrow> nat set" where
  "occupiedRows m = {r \<in> {0..<4}. \<exists>c \<in> {0..<4}. cellSet m c r}"

definition emptyRowsAbove :: "int \<Rightarrow> nat" where
  "emptyRowsAbove m = length (takeWhile (\<lambda>r. r \<notin> occupiedRows m) [0..<4])"

text \<open>
  The footprint of a mask at an origin: the absolute cells (column, row) of its set bits,
  in unbounded integers. \<open>inBoard\<close> is the board's index range.
\<close>

definition footprint :: "int \<Rightarrow> int \<Rightarrow> int \<Rightarrow> (int \<times> int) set" where
  "footprint m x y =
     (\<lambda>i. (x + int (i mod 4), y + int (i div 4))) ` {i \<in> {0..<16}. bit m (15 - i)}"

definition inBoard :: "int \<Rightarrow> int \<Rightarrow> bool" where
  "inBoard c r = (0 \<le> c \<and> c < gameGridWidth \<and> 0 \<le> r \<and> r < gameGridHeight)"

definition cellAt :: "Board \<Rightarrow> int \<Rightarrow> int \<Rightarrow> ShapeState" where
  "cellAt b c r = b ! nat r ! nat c"

text \<open>
  Iteration \<open>i\<close> of the loops of \<^verbatim>\<open>fixPiece\<close> and \<^verbatim>\<open>hasCollision\<close> addresses the
  cell in column \<open>c\<close> and row \<open>r\<close>, with the coordinates as the code computes them.
\<close>

definition addresses :: "int \<Rightarrow> int \<Rightarrow> int \<Rightarrow> nat \<Rightarrow> nat \<Rightarrow> nat \<Rightarrow> bool" where
  "addresses m x y i c r =
     (bit m (15 - i) \<and> add64 x (int (i mod 4)) = int c \<and> add64 y (int (i div 4)) = int r)"

definition blocked :: "Board \<Rightarrow> int \<Rightarrow> int \<Rightarrow> int \<Rightarrow> nat \<Rightarrow> bool" where
  "blocked b m x y i =
     (bit m (15 - i) \<and>
      (\<not> isWithinBoard (add64 x (int (i mod 4))) (add64 y (int (i div 4)))
       \<or> cellAt b (add64 x (int (i mod 4))) (add64 y (int (i div 4))) = FixedState))"

subsection \<open>Example states\<close>

text \<open>An empty board with the bar (kind 0, rotation 0) at its spawn origin.\<close>

definition demoGame :: Game where
  "demoGame =
     \<lparr>piece = \<lparr>Shape = \<lparr>shape = 0, pos = 0, state = FallingState\<rparr>,
               Position = \<lparr>posX = 0, posY = - 1, oldX = 0, oldY = - 1\<rparr>,
               PreviousShape = \<lparr>shape = 0, pos = 0, state = EmptyState\<rparr>\<rparr>,
      board = emptyBoard, cancelled = False\<rparr>"

section \<open>Shape geometry\<close>

lemma mask_bit_test: "(and m (push_bit k 1) \<noteq> 0) = bit m k" for m :: int
  by (simp add: bit_iff_and_push_bit_not_eq_0)

lemma mask_bit_exp: "(and m (2 ^ k) = 0) = (\<not> bit m k)" for m :: int
  using mask_bit_test[of m k] by (auto simp: push_bit_of_1)

lemma Min_insert_min:
  fixes a :: int
  shows "finite S \<Longrightarrow> Min (insert (min a b) S) = Min (insert a (insert b S))"
  by (cases "S = {}") (simp_all add: min.assoc)

lemma Max_insert_max:
  fixes a :: int
  shows "finite S \<Longrightarrow> Max (insert (max a b) S) = Max (insert a (insert b S))"
  by (cases "S = {}") (simp_all add: max.assoc)

lemma fold_min_set:
  fixes f :: "nat \<Rightarrow> int"
  shows "fold (\<lambda>i acc. if P i then (let col = f i in if acc > col then col else acc) else acc) xs a
       = Min (insert a (f ` {i \<in> set xs. P i}))"
proof (induction xs arbitrary: a)
  case Nil
  then show ?case by simp
next
  case (Cons x xs)
  let ?S = "f ` {i \<in> set xs. P i}"
  let ?T = "f ` {i \<in> set (x # xs). P i}"
  show ?case
  proof (cases "P x")
    case True
    have eq: "?T = insert (f x) ?S" using True by auto
    have "Min (insert (min a (f x)) ?S) = Min (insert a (insert (f x) ?S))"
      by (rule Min_insert_min) simp
    then have "Min (insert (min a (f x)) ?S) = Min (insert a ?T)"
      unfolding eq .
    moreover have "(if a > f x then f x else a) = min a (f x)"
      by (simp add: min_def)
    ultimately show ?thesis using True Cons.IH[of "min a (f x)"]
      by (simp only: fold_simps o_apply if_True Let_def)
  next
    case False
    have eq: "?T = ?S" using False by auto
    show ?thesis using False Cons.IH[of a]
      unfolding eq by (simp only: fold_simps o_apply if_False)
  qed
qed

lemma fold_minmax_set:
  fixes f :: "nat \<Rightarrow> int"
  shows "fold (\<lambda>i (mn, mx). if P i then (let c = f i in (if c < mn then c else mn, if c > mx then c else mx)) else (mn, mx)) xs (a, b)
       = (Min (insert a (f ` {i \<in> set xs. P i})), Max (insert b (f ` {i \<in> set xs. P i})))"
proof (induction xs arbitrary: a b)
  case Nil
  then show ?case by simp
next
  case (Cons x xs)
  let ?S = "f ` {i \<in> set xs. P i}"
  let ?T = "f ` {i \<in> set (x # xs). P i}"
  show ?case
  proof (cases "P x")
    case True
    have eq: "?T = insert (f x) ?S" using True by auto
    have "Min (insert (min a (f x)) ?S) = Min (insert a (insert (f x) ?S))"
      by (rule Min_insert_min) simp
    then have 1: "Min (insert (min a (f x)) ?S) = Min (insert a ?T)"
      unfolding eq .
    have "Max (insert (max b (f x)) ?S) = Max (insert b (insert (f x) ?S))"
      by (rule Max_insert_max) simp
    then have 2: "Max (insert (max b (f x)) ?S) = Max (insert b ?T)"
      unfolding eq .
    have 3: "(if f x < a then f x else a) = min a (f x)" "(if f x > b then f x else b) = max b (f x)"
      by (auto simp: min_def max_def)
    show ?thesis using True Cons.IH[of "min a (f x)" "max b (f x)"] 1 2 3
      by (simp only: fold_simps o_apply if_True Let_def prod.case)
  next
    case False
    have eq: "?T = ?S" using False by auto
    show ?thesis using False Cons.IH[of a b]
      unfolding eq by (simp only: fold_simps o_apply if_False prod.case)
  qed
qed


lemma occupiedCols_image:
  "(\<lambda>i. i mod 4) ` {i \<in> set [0..<16]. bit m (15 - i)} = occupiedCols m"
proof (intro set_eqI iffI)
  fix c assume "c \<in> (\<lambda>i. i mod 4) ` {i \<in> set [0..<16]. bit m (15 - i)}"
  then obtain i where i: "i < 16" "bit m (15 - i)" "c = i mod 4" by auto
  have "4 * (i div 4) + i mod 4 = i" by simp
  with i have "cellSet m c (i div 4)" by (simp add: cellSet_def)
  moreover have "i div 4 < 4" using i(1) by simp
  ultimately show "c \<in> occupiedCols m" using i(3) by (auto simp: occupiedCols_def)
next
  fix c assume "c \<in> occupiedCols m"
  then obtain r where r: "c < 4" "r < 4" "bit m (15 - (4 * r + c))"
    by (auto simp: occupiedCols_def cellSet_def)
  then have "4 * r + c < 16" "(4 * r + c) mod 4 = c" by simp_all
  with r(3) show "c \<in> (\<lambda>i. i mod 4) ` {i \<in> set [0..<16]. bit m (15 - i)}"
    by (intro image_eqI[where x = "4 * r + c"]) simp_all
qed

lemma occupiedCols_bound: "c \<in> occupiedCols m \<Longrightarrow> c < 4"
  by (simp add: occupiedCols_def)

lemma finite_occupiedCols: "finite (occupiedCols m)"
  by (simp add: occupiedCols_def)

lemma findFirstNonEmptyColumn_Min:
  "findFirstNonEmptyColumn m = Min (insert 4 (int ` occupiedCols m))"
proof -
  have "findFirstNonEmptyColumn m
      = Min (insert 4 ((\<lambda>i. int (i mod 4)) ` {i \<in> set [0..<16]. bit m (15 - i)}))"
    unfolding findFirstNonEmptyColumn_def mask_bit_test by (rule fold_min_set)
  also have "(\<lambda>i. int (i mod 4)) ` {i \<in> set [0..<16]. bit m (15 - i)}
      = int ` ((\<lambda>i. i mod 4) ` {i \<in> set [0..<16]. bit m (15 - i)})"
    by (simp only: image_image)
  finally show ?thesis by (simp only: occupiedCols_image)
qed

lemma findFirstNonEmptyColumn_cols:
  "findFirstNonEmptyColumn m = (if occupiedCols m = {} then 4 else int (Min (occupiedCols m)))"
proof (cases "occupiedCols m = {}")
  case True
  then show ?thesis by (simp add: findFirstNonEmptyColumn_Min)
next
  case False
  have "Min (occupiedCols m) \<in> occupiedCols m"
    using False finite_occupiedCols by (rule_tac Min_in)
  then have lt: "Min (occupiedCols m) < 4" by (rule occupiedCols_bound)
  have "Min (int ` occupiedCols m) = int (Min (occupiedCols m))"
    using False finite_occupiedCols
    by (intro mono_Min_commute[symmetric] monoI) simp_all
  then show ?thesis using False lt finite_occupiedCols
    by (simp add: findFirstNonEmptyColumn_Min)
qed

lemma findFirstNonEmptyColumn_range:
  "0 \<le> findFirstNonEmptyColumn m \<and> findFirstNonEmptyColumn m \<le> 4"
proof (cases "occupiedCols m = {}")
  case True
  then show ?thesis by (simp add: findFirstNonEmptyColumn_cols)
next
  case False
  have "Min (occupiedCols m) \<in> occupiedCols m"
    using False finite_occupiedCols by (rule_tac Min_in)
  then have "Min (occupiedCols m) < 4" by (rule occupiedCols_bound)
  then show ?thesis using False by (simp add: findFirstNonEmptyColumn_cols)
qed

lemma mirror_mod4:
  fixes i :: nat
  assumes "i < 16"
  shows "(15 - i) mod 4 = 3 - i mod 4"
proof -
  define q r where "q = i div 4" and "r = i mod 4"
  have i: "i = q * 4 + r" and r: "r < 4" by (simp_all add: q_def r_def)
  with assms have q: "q < 4" by linarith
  from i r q have "15 - i = (3 - q) * 4 + (3 - r)" by simp
  then have "(15 - i) mod 4 = (3 - r) mod 4" by (simp only: mod_mult_self3)
  then show ?thesis by (simp add: r_def)
qed

lemma mirrored_cols_image:
  "(\<lambda>i. i mod 4) ` {i \<in> set [0..<16]. bit m i} = (\<lambda>c. 3 - c) ` occupiedCols m"
proof (intro set_eqI iffI)
  fix d assume "d \<in> (\<lambda>i. i mod 4) ` {i \<in> set [0..<16]. bit m i}"
  then obtain i where i: "i < 16" "bit m i" "d = i mod 4" by auto
  let ?j = "15 - i"
  have j: "?j < 16" "15 - ?j = i" using i(1) by simp_all
  have "?j mod 4 \<in> (\<lambda>i. i mod 4) ` {i \<in> set [0..<16]. bit m (15 - i)}"
    using j i(2) by (intro image_eqI[where x = ?j]) simp_all
  then have "?j mod 4 \<in> occupiedCols m" by (simp only: occupiedCols_image)
  moreover have "d = 3 - ?j mod 4" using i(1,3) mirror_mod4[of i] by simp
  ultimately show "d \<in> (\<lambda>c. 3 - c) ` occupiedCols m" by blast
next
  fix d assume "d \<in> (\<lambda>c. 3 - c) ` occupiedCols m"
  then obtain c where c: "c \<in> occupiedCols m" "d = 3 - c" by blast
  then have "c \<in> (\<lambda>i. i mod 4) ` {i \<in> set [0..<16]. bit m (15 - i)}"
    by (simp only: occupiedCols_image)
  then obtain j where j: "j < 16" "bit m (15 - j)" "c = j mod 4" by auto
  have "(15 - j) mod 4 = d" using j(1,3) c(2) mirror_mod4[of j] by simp
  moreover have "15 - j < 16" by simp
  ultimately show "d \<in> (\<lambda>i. i mod 4) ` {i \<in> set [0..<16]. bit m i}"
    using j(2) by (intro image_eqI[where x = "15 - j"]) simp_all
qed

lemma getShapeDimensions_cols:
  assumes ne: "occupiedCols m \<noteq> {}"
  shows "getShapeDimensions m = int (Max (occupiedCols m)) - int (Min (occupiedCols m)) + 1"
proof -
  let ?C = "occupiedCols m"
  let ?X = "(\<lambda>i. int (i mod 4)) ` {i \<in> set [0..<16]. bit m i}"
  have X: "?X = (\<lambda>c. 3 - int c) ` ?C"
  proof -
    have "?X = int ` ((\<lambda>i. i mod 4) ` {i \<in> set [0..<16]. bit m i})"
      by (simp only: image_image)
    also have "\<dots> = int ` ((\<lambda>c. 3 - c) ` ?C)" by (simp only: mirrored_cols_image)
    also have "\<dots> = (\<lambda>c. 3 - int c) ` ?C"
    proof -
      have "\<And>c. c \<in> ?C \<Longrightarrow> int (3 - c) = 3 - int c"
        by (drule occupiedCols_bound) simp
      then show ?thesis by (simp add: image_image)
    qed
    finally show ?thesis .
  qed
  have fin: "finite ?C" by (rule finite_occupiedCols)
  have mn_in: "Min ?C \<in> ?C" and mx_in: "Max ?C \<in> ?C" using ne fin by simp_all
  have mn_le: "\<And>c. c \<in> ?C \<Longrightarrow> Min ?C \<le> c" and mx_ge: "\<And>c. c \<in> ?C \<Longrightarrow> c \<le> Max ?C"
    using fin by simp_all
  have lt: "Min ?C < 4" "Max ?C < 4" using mn_in mx_in by (auto dest: occupiedCols_bound)
  have minX: "Min (insert 4 ?X) = 3 - int (Max ?C)"
  proof (rule Min_eqI)
    show "finite (insert 4 ?X)" by simp
    show "3 - int (Max ?C) \<in> insert 4 ?X" unfolding X using mx_in by blast
    fix v assume "v \<in> insert 4 ?X"
    then show "3 - int (Max ?C) \<le> v" unfolding X using mx_ge by auto
  qed
  have maxX: "Max (insert 0 ?X) = 3 - int (Min ?C)"
  proof (rule Max_eqI)
    show "finite (insert 0 ?X)" by simp
    show "3 - int (Min ?C) \<in> insert 0 ?X" unfolding X using mn_in by blast
    fix v assume "v \<in> insert 0 ?X"
    then show "v \<le> 3 - int (Min ?C)" unfolding X using mn_le lt by auto
  qed
  have "fold (\<lambda>i (minX, maxX).
                   if and m (push_bit i 1) \<noteq> 0
                   then (let c = int (i mod 4)
                         in (if c < minX then c else minX, if c > maxX then c else maxX))
                   else (minX, maxX))
                [0..<16] (4, 0) = (Min (insert 4 ?X), Max (insert 0 ?X))"
    unfolding mask_bit_test by (rule fold_minmax_set)
  then show ?thesis unfolding getShapeDimensions_def minX maxX by simp
qed


lemma nibble_test:
  "(and (drop_bit n m) 0xF \<noteq> 0) = (\<exists>k<4. bit m (n + k))" for m :: int
proof -
  have "(15::int) = mask 4" by (simp add: mask_eq_exp_minus_1)
  then have "and (drop_bit n m) 0xF = take_bit 4 (drop_bit n m)"
    by (simp only: take_bit_eq_mask)
  moreover have "(take_bit 4 (drop_bit n m) \<noteq> 0) = (\<exists>k<4. bit m (n + k))"
    by (auto simp: bit_eq_iff bit_take_bit_iff bit_drop_bit_eq)
  ultimately show ?thesis by simp
qed

lemma row_test_occupiedRows:
  assumes "i < 4"
  shows "(and (drop_bit (i * 4) m) 0xF \<noteq> 0) = (3 - i \<in> occupiedRows m)"
proof -
  have "(\<exists>k<4. bit m (i * 4 + k)) = (\<exists>c<4. bit m (15 - (4 * (3 - i) + c)))"
  proof
    assume "\<exists>k<4. bit m (i * 4 + k)"
    then obtain k where k: "k < 4" "bit m (i * 4 + k)" by blast
    have "15 - (4 * (3 - i) + (3 - k)) = i * 4 + k" using assms k(1) by simp
    with k(2) have "bit m (15 - (4 * (3 - i) + (3 - k)))" by (simp only:)
    moreover have "3 - k < 4" by simp
    ultimately show "\<exists>c<4. bit m (15 - (4 * (3 - i) + c))" by blast
  next
    assume "\<exists>c<4. bit m (15 - (4 * (3 - i) + c))"
    then obtain c where c: "c < 4" "bit m (15 - (4 * (3 - i) + c))" by blast
    have "15 - (4 * (3 - i) + c) = i * 4 + (3 - c)" using assms c(1) by simp
    with c(2) have "bit m (i * 4 + (3 - c))" by (simp only:)
    moreover have "3 - c < 4" by simp
    ultimately show "\<exists>k<4. bit m (i * 4 + k)" by blast
  qed
  moreover have "3 - i < 4" by simp
  ultimately show ?thesis
    by (simp add: nibble_test occupiedRows_def cellSet_def Bex_def)
qed

lemma upt4: "[0..<4] = [0, 1, 2, 3::nat]"
  by (simp add: upt_rec)

lemma getTopOffset_rows:
  "getTopOffset m =
     (if 0 \<in> occupiedRows m then 0 else if 1 \<in> occupiedRows m then 1
      else if 2 \<in> occupiedRows m then 2 else if 3 \<in> occupiedRows m then 3 else 0)"
proof -
  have "getTopOffset m = getTopOffset_loop m [3, 2, 1, 0]"
    by (simp add: getTopOffset_def upt4)
  then show ?thesis
    using row_test_occupiedRows[of 3 m] row_test_occupiedRows[of 2 m]
      row_test_occupiedRows[of 1 m] row_test_occupiedRows[of 0 m]
    by simp
qed

lemma occupiedRows_cases:
  "r \<in> occupiedRows m \<Longrightarrow> r = 0 \<or> r = 1 \<or> r = 2 \<or> r = 3"
  by (auto simp: occupiedRows_def)

lemma getTopOffset_emptyRowsAbove:
  assumes "occupiedRows m \<noteq> {}"
  shows "getTopOffset m = int (emptyRowsAbove m)"
proof -
  from assms obtain r where "r \<in> occupiedRows m" by blast
  then have "0 \<in> occupiedRows m \<or> 1 \<in> occupiedRows m \<or> 2 \<in> occupiedRows m \<or> 3 \<in> occupiedRows m"
    using occupiedRows_cases by blast
  then show ?thesis
    by (auto simp: getTopOffset_rows emptyRowsAbove_def upt4)
qed

lemma getTopOffset_range: "0 \<le> getTopOffset m \<and> getTopOffset m \<le> 3"
  by (simp add: getTopOffset_rows)

lemma bit_below_16:
  fixes m :: int
  assumes "0 \<le> m" "m < 2 ^ 16" "bit m n"
  shows "n < 16"
proof (rule ccontr)
  assume "\<not> n < 16"
  then have "(2::int) ^ 16 \<le> 2 ^ n" by (intro power_increasing) simp_all
  with assms(1,2) have "m < 2 ^ n" by linarith
  with assms(1) have "m div 2 ^ n = 0" by simp
  with assms(3) show False by (simp add: bit_iff_odd)
qed

lemma nonzero_mask_cell:
  fixes m :: int
  assumes "0 \<le> m" "m < 2 ^ 16" "m \<noteq> 0"
  shows "\<exists>c<4. \<exists>r<4. cellSet m c r"
proof -
  from assms(3) obtain n where n: "bit m n" by (auto simp: bit_eq_iff)
  with assms have lt: "n < 16" by (rule_tac bit_below_16)
  let ?i = "15 - n"
  have "4 * (?i div 4) + ?i mod 4 = ?i" by simp
  then have "15 - (4 * (?i div 4) + ?i mod 4) = n" using lt by simp
  with n have "cellSet m (?i mod 4) (?i div 4)" by (simp add: cellSet_def)
  moreover have "?i mod 4 < 4" "?i div 4 < 4" by simp_all
  ultimately show ?thesis by blast
qed

lemma occupied_empty_iff:
  assumes "0 \<le> m" "m < 2 ^ 16"
  shows "(occupiedCols m = {}) = (m = 0)" and "(occupiedRows m = {}) = (m = 0)"
proof -
  have z: "occupiedCols 0 = {}" "occupiedRows 0 = {}"
    by (simp_all add: occupiedCols_def occupiedRows_def cellSet_def)
  have "m \<noteq> 0 \<Longrightarrow> occupiedCols m \<noteq> {}" "m \<noteq> 0 \<Longrightarrow> occupiedRows m \<noteq> {}"
  proof -
    assume "m \<noteq> 0"
    with nonzero_mask_cell[OF assms] obtain c r where "c < 4" "r < 4" "cellSet m c r"
      by blast
    then have "c \<in> occupiedCols m" "r \<in> occupiedRows m"
      by (auto simp: occupiedCols_def occupiedRows_def)
    then show "occupiedCols m \<noteq> {}" "occupiedRows m \<noteq> {}" by blast+
  qed
  with z show "(occupiedCols m = {}) = (m = 0)" and "(occupiedRows m = {}) = (m = 0)"
    by auto
qed

text \<open>
  Claim C7. For every 16-bit mask \<open>m\<close>: when \<open>m\<close> is not empty, \<^verbatim>\<open>getTopOffset\<close> is
  the number of entirely empty rows above the first occupied row and lies in 0..3;
  \<^verbatim>\<open>findFirstNonEmptyColumn\<close> is the leftmost occupied column (0..3), and 4 for the empty
  mask; \<^verbatim>\<open>getShapeDimensions\<close> is the rightmost occupied column minus the leftmost one
  plus 1. Occupied rows and columns are read off the bits: bit \<open>15 - i\<close> is the cell
  \<open>(i mod 4, i div 4)\<close>.
\<close>

theorem shape_geometry_consistent:
  assumes "0 \<le> m" and "m < 2 ^ 16"
  shows "(m \<noteq> 0 \<longrightarrow> getTopOffset m = int (emptyRowsAbove m)
            \<and> 0 \<le> getTopOffset m \<and> getTopOffset m \<le> 3)
       \<and> findFirstNonEmptyColumn m = (if m = 0 then 4 else int (Min (occupiedCols m)))
       \<and> (m \<noteq> 0 \<longrightarrow> 0 \<le> findFirstNonEmptyColumn m \<and> findFirstNonEmptyColumn m \<le> 3)
       \<and> (m \<noteq> 0 \<longrightarrow> getShapeDimensions m
             = int (Max (occupiedCols m)) - int (Min (occupiedCols m)) + 1)"
proof -
  note e = occupied_empty_iff[OF assms]
  have "m \<noteq> 0 \<Longrightarrow> Min (occupiedCols m) < 4"
    using e(1) Min_in[OF finite_occupiedCols, of m] occupiedCols_bound by blast
  then show ?thesis
    using e getTopOffset_emptyRowsAbove[of m] getTopOffset_range[of m]
      findFirstNonEmptyColumn_cols[of m] getShapeDimensions_cols[of m]
    by auto
qed

theorem shape_geometry_consistent_witness:
  "(0::int) \<le> 0x4C40 \<and> (0x4C40::int) < 2 ^ 16 \<and> (0x4C40::int) \<noteq> 0
   \<and> getTopOffset 0x4C40 = 0 \<and> int (emptyRowsAbove 0x4C40) = 0
   \<and> findFirstNonEmptyColumn 0x4C40 = 0 \<and> int (Min (occupiedCols 0x4C40)) = 0
   \<and> getShapeDimensions 0x4C40 = 2
   \<and> int (Max (occupiedCols 0x4C40)) - int (Min (occupiedCols 0x4C40)) + 1 = 2"
proof -
  have h: "(0::int) \<le> 0x4C40" "(0x4C40::int) < 2 ^ 16" by simp_all
  have n: "(0x4C40::int) \<noteq> 0" by simp
  have t: "getTopOffset 0x4C40 = 0" by code_simp
  have c: "findFirstNonEmptyColumn 0x4C40 = 0" by code_simp
  have d: "getShapeDimensions 0x4C40 = 2" by code_simp
  note th = shape_geometry_consistent[OF h]
  from th n have 1: "getTopOffset 0x4C40 = int (emptyRowsAbove 0x4C40)" by blast
  from th n have 2: "findFirstNonEmptyColumn 0x4C40 = int (Min (occupiedCols 0x4C40))"
    by (simp only: if_False)
  from th n have 3: "getShapeDimensions 0x4C40
      = int (Max (occupiedCols 0x4C40)) - int (Min (occupiedCols 0x4C40)) + 1" by blast
  show ?thesis
    using h n t c d 1[symmetric] 2[symmetric] 3[symmetric] by (simp only: simp_thms)
qed

section \<open>Machine integers and the termination of the wall-kick search\<close>

lemma is_i64_i64: "is_i64 (i64 v)"
proof -
  have "0 \<le> (v + 2 ^ 63) mod 2 ^ 64" "(v + 2 ^ 63) mod 2 ^ 64 < (2 ^ 64 :: int)"
    by simp_all
  then show ?thesis unfolding is_i64_def i64_def by simp
qed

lemma i64_id: "is_i64 v \<Longrightarrow> i64 v = v"
proof -
  assume "is_i64 v"
  then have "0 \<le> v + 2 ^ 63" "v + 2 ^ 63 < 2 ^ 64" unfolding is_i64_def by simp_all
  then have "(v + 2 ^ 63) mod 2 ^ 64 = v + 2 ^ 63" by (rule mod_pos_pos_trivial)
  then show ?thesis unfolding i64_def by simp
qed

lemma i64_above: "2 ^ 63 \<le> v \<Longrightarrow> v < 2 ^ 63 + 2 ^ 64 \<Longrightarrow> i64 v = v - 2 ^ 64"
proof -
  assume a: "2 ^ 63 \<le> v" "v < 2 ^ 63 + 2 ^ 64"
  have "(v + 2 ^ 63) mod 2 ^ 64 = (v + 2 ^ 63 - 2 ^ 64) mod 2 ^ 64"
    by (rule minus_mod_self2[symmetric])
  also have "\<dots> = v + 2 ^ 63 - 2 ^ 64"
    using a by (intro mod_pos_pos_trivial) simp_all
  finally show ?thesis unfolding i64_def by simp
qed

lemma i64_add_left: "i64 (i64 a + b) = i64 (a + b)"
proof -
  have "(i64 a + b + 2 ^ 63) mod 2 ^ 64 = ((a + 2 ^ 63) mod 2 ^ 64 + b) mod 2 ^ 64"
    unfolding i64_def by (rule arg_cong[where f = "\<lambda>t. t mod 2 ^ 64"]) simp
  also have "\<dots> = (a + 2 ^ 63 + b) mod 2 ^ 64" by (rule mod_add_left_eq)
  also have "\<dots> = (a + b + 2 ^ 63) mod 2 ^ 64"
    by (rule arg_cong[where f = "\<lambda>t. t mod 2 ^ 64"]) simp
  finally show ?thesis unfolding i64_def by simp
qed

lemma is_i64_add64 [simp]: "is_i64 (add64 a b)"
  and is_i64_sub64 [simp]: "is_i64 (sub64 a b)"
  and is_i64_neg64 [simp]: "is_i64 (neg64 a)"
  by (simp_all add: add64_def sub64_def neg64_def is_i64_i64)

text \<open>
  While the guard \<open>x + d \<ge> 0\<close> of the search holds (with \<open>0 \<le> d \<le> 4\<close>), \<open>x\<close> is
  at least \<open>-4\<close> and \<open>x - 1\<close> does not wrap.
\<close>

lemma kick_guard_lower:
  assumes d: "0 \<le> d" "d \<le> 4" and g: "0 \<le> add64 x d"
  shows "- 4 \<le> i64 x \<and> i64 (sub64 x 1) = i64 x - 1"
proof -
  have r: "- (2 ^ 63) \<le> i64 x" "i64 x < 2 ^ 63"
    using is_i64_i64[of x] by (simp_all add: is_i64_def)
  have e: "add64 x d = i64 (i64 x + d)" by (simp add: add64_def i64_add_left)
  have lo: "- 4 \<le> i64 x"
  proof (cases "i64 x + d < 2 ^ 63")
    case True
    then have "is_i64 (i64 x + d)" using r d unfolding is_i64_def by simp
    then have "add64 x d = i64 x + d" using e by (simp add: i64_id)
    with g d show ?thesis by linarith
  next
    case False
    then have "i64 (i64 x + d) = i64 x + d - 2 ^ 64"
      using r d by (intro i64_above) simp_all
    with e g r d show ?thesis by simp
  qed
  have "sub64 x 1 = i64 (i64 x + (- 1))"
    using i64_add_left[of x "- 1"] by (simp add: sub64_def)
  moreover have "is_i64 (i64 x + (- 1))" using lo r unfolding is_i64_def by simp
  ultimately have "sub64 x 1 = i64 x - 1" by (simp add: i64_id)
  moreover have "is_i64 (i64 x - 1)" using lo r unfolding is_i64_def by simp
  ultimately show ?thesis using lo by (simp add: i64_id)
qed

termination kickLeft
proof (relation "measure (\<lambda>g. nat (i64 (curX g) + 5))")
  show "wf (measure (\<lambda>g. nat (i64 (curX g) + 5)))" by simp
next
  fix g :: Game and m :: int and c :: bool
  assume "0 \<le> add64 (curX g) (findFirstNonEmptyColumn m)"
  then have "- 4 \<le> i64 (curX g) \<and> i64 (sub64 (curX g) 1) = i64 (curX g) - 1"
    using findFirstNonEmptyColumn_range[of m] by (intro kick_guard_lower) simp_all
  then show "(setX (sub64 (curX g) 1) g, g) \<in> measure (\<lambda>g. nat (i64 (curX g) + 5))"
    by simp
qed

section \<open>Stamping a footprint and testing a collision\<close>

lemma add64_in_range:
  assumes "is_i64 x" and "0 \<le> k" and "k \<le> 3" and "0 \<le> n" and "n \<le> 20"
  shows "(0 \<le> add64 x k \<and> add64 x k < n) = (0 \<le> x + k \<and> x + k < n)"
    and "0 \<le> add64 x k \<and> add64 x k < n \<Longrightarrow> add64 x k = x + k"
proof -
  have c: "(0 \<le> add64 x k \<and> add64 x k < n) = (0 \<le> x + k \<and> x + k < n)
         \<and> (0 \<le> add64 x k \<and> add64 x k < n \<longrightarrow> add64 x k = x + k)"
  proof (cases "x + k < 2 ^ 63")
    case True
    then have "is_i64 (x + k)" using assms(1,2) unfolding is_i64_def by simp
    then show ?thesis by (simp add: add64_def i64_id)
  next
    case False
    then have "i64 (x + k) = x + k - 2 ^ 64"
      using assms(1,3) unfolding is_i64_def by (intro i64_above) simp_all
    then show ?thesis using False assms unfolding add64_def is_i64_def by simp
  qed
  from c show "(0 \<le> add64 x k \<and> add64 x k < n) = (0 \<le> x + k \<and> x + k < n)" by blast
  from c show "0 \<le> add64 x k \<and> add64 x k < n \<Longrightarrow> add64 x k = x + k" by blast
qed

lemma add64_eq_cell:
  assumes "is_i64 x" and "0 \<le> k" and "k \<le> 3" and "c < 20"
  shows "(add64 x k = int c) = (x + k = int c)"
proof
  assume a: "add64 x k = int c"
  then have "0 \<le> add64 x k \<and> add64 x k < 20" using assms(4) by simp
  then have "add64 x k = x + k" by (rule add64_in_range(2)[OF assms(1-3), of 20, rotated 2]) simp_all
  with a show "x + k = int c" by simp
next
  assume a: "x + k = int c"
  then have "0 \<le> x + k \<and> x + k < 20" using assms(4) by simp
  then have "0 \<le> add64 x k \<and> add64 x k < 20"
    using add64_in_range(1)[OF assms(1-3), of 20] by simp
  then have "add64 x k = x + k" by (rule add64_in_range(2)[OF assms(1-3), of 20, rotated 2]) simp_all
  with a show "add64 x k = int c" by simp
qed

lemma wf_board_nth:
  "wf_board b \<Longrightarrow> r < 20 \<Longrightarrow> length (b ! r) = 10"
  by (simp add: wf_board_def gameGridHeight_def gameGridWidth_def list_all_length)

lemma wf_board_length: "wf_board b \<Longrightarrow> length b = 20"
  by (simp add: wf_board_def gameGridHeight_def)

lemma wf_boardI:
  "length b = 20 \<Longrightarrow> (\<And>r. r < 20 \<Longrightarrow> length (b ! r) = 10) \<Longrightarrow> wf_board b"
  by (simp add: wf_board_def gameGridHeight_def gameGridWidth_def list_all_length)

lemma wf_board_emptyBoard: "wf_board emptyBoard"
  by (simp add: wf_board_def emptyBoard_def gameGridHeight_def gameGridWidth_def
      list_all_length)

lemma wf_board_update:
  assumes "wf_board b"
  shows "wf_board (b[r := (b ! r)[c := v]])"
proof (rule wf_boardI)
  show "length (b[r := (b ! r)[c := v]]) = 20" using assms by (simp add: wf_board_length)
  fix q :: nat assume q: "q < 20"
  show "length (b[r := (b ! r)[c := v]] ! q) = 10"
  proof (cases "q = r")
    case True
    then show ?thesis using q assms by (simp add: wf_board_length wf_board_nth)
  next
    case False
    then show ?thesis using q assms by (simp add: wf_board_nth)
  qed
qed

lemma nth_board_update:
  assumes "wf_board b" "r' < 20" "c' < 10" "r < 20" "c < 10"
  shows "b[r' := (b ! r')[c' := v]] ! r ! c = (if r = r' \<and> c = c' then v else b ! r ! c)"
  using assms by (simp add: nth_list_update wf_board_length wf_board_nth)

lemma board_ext:
  assumes "wf_board a" "wf_board b" "\<And>r c. r < 20 \<Longrightarrow> c < 10 \<Longrightarrow> a ! r ! c = b ! r ! c"
  shows "a = b"
proof (rule nth_equalityI)
  show "length a = length b" using assms(1,2) by (simp add: wf_board_length)
  fix r assume "r < length a"
  then have r: "r < 20" using assms(1) by (simp add: wf_board_length)
  show "a ! r = b ! r"
    by (rule nth_equalityI) (simp_all add: wf_board_nth[OF assms(1) r] wf_board_nth[OF assms(2) r] assms(3)[OF r])
qed

text \<open>The cells a stamping loop writes, with the coordinates as the code computes them.\<close>

lemma board_set_ok:
  assumes "0 \<le> xx" "xx < gameGridWidth" "0 \<le> yy" "yy < gameGridHeight"
  shows "board_set b yy xx v = Inr (b[nat yy := (b ! nat yy)[nat xx := v]])"
  using assms by (simp add: board_set_def)

lemma fixPiece_loop_cells:
  assumes "wf_board b"
  shows "\<exists>b'. fixPiece_loop m x y v js b = Inr b' \<and> wf_board b' \<and>
          (\<forall>r<20. \<forall>c<10. b' ! r ! c =
             (if \<exists>i\<in>set js. addresses m x y i c r then v else b ! r ! c))"
  using assms
proof (induction js arbitrary: b)
  case Nil
  then show ?case by simp
next
  case (Cons i js)
  let ?xx = "add64 x (int (i mod 4))" and ?yy = "add64 y (int (i div 4))"
  show ?case
  proof (cases "bit m (15 - i) \<and> 0 \<le> ?xx \<and> ?xx < gameGridWidth \<and> 0 \<le> ?yy \<and> ?yy < gameGridHeight")
    case True
    let ?b1 = "b[nat ?yy := (b ! nat ?yy)[nat ?xx := v]]"
    have wf1: "wf_board ?b1" using Cons.prems by (rule wf_board_update)
    have n: "nat ?yy < 20" "nat ?xx < 10"
      using True unfolding gameGridWidth_def gameGridHeight_def by linarith+
    have step: "fixPiece_loop m x y v (i # js) b = fixPiece_loop m x y v js ?b1"
      using True by (simp add: mask_bit_exp board_set_ok Let_def)
    from Cons.IH[OF wf1] obtain b' where b': "fixPiece_loop m x y v js ?b1 = Inr b'"
      "wf_board b'"
      "\<forall>r<20. \<forall>c<10. b' ! r ! c =
             (if \<exists>i\<in>set js. addresses m x y i c r then v else ?b1 ! r ! c)"
      by blast
    have "\<forall>r<20. \<forall>c<10. b' ! r ! c =
             (if \<exists>i\<in>set (i # js). addresses m x y i c r then v else b ! r ! c)"
    proof (intro allI impI)
      fix r c :: nat assume rc: "r < 20" "c < 10"
      have here: "(r = nat ?yy \<and> c = nat ?xx) = addresses m x y i c r"
        using True unfolding addresses_def by auto
      have 1: "b' ! r ! c = (if \<exists>i\<in>set js. addresses m x y i c r then v else ?b1 ! r ! c)"
        using b'(3) rc by blast
      have 2: "?b1 ! r ! c = (if addresses m x y i c r then v else b ! r ! c)"
        using nth_board_update[OF Cons.prems n rc, of v] here by (simp only:)
      show "b' ! r ! c =
             (if \<exists>i\<in>set (i # js). addresses m x y i c r then v else b ! r ! c)"
        unfolding 1 2 by simp
    qed
    with b'(1,2) step show ?thesis by (simp only:) blast
  next
    case False
    have step: "fixPiece_loop m x y v (i # js) b = fixPiece_loop m x y v js b"
      using False by (auto simp: mask_bit_exp Let_def)
    from Cons.IH[OF Cons.prems] obtain b' where b': "fixPiece_loop m x y v js b = Inr b'"
      "wf_board b'"
      "\<forall>r<20. \<forall>c<10. b' ! r ! c =
             (if \<exists>i\<in>set js. addresses m x y i c r then v else b ! r ! c)"
      by blast
    have miss: "\<And>r c. r < 20 \<Longrightarrow> c < 10 \<Longrightarrow> \<not> addresses m x y i c r"
      using False unfolding addresses_def gameGridWidth_def gameGridHeight_def by auto
    have "\<forall>r<20. \<forall>c<10. b' ! r ! c =
             (if \<exists>i\<in>set (i # js). addresses m x y i c r then v else b ! r ! c)"
      using b'(3) miss by simp
    with b'(1,2) step show ?thesis by (simp only:) blast
  qed
qed

lemma fixPiece_loop_total: "\<exists>b'. fixPiece_loop m x y v js b = Inr b'"
proof (induction js arbitrary: b)
  case Nil
  then show ?case by simp
next
  case (Cons i js)
  then show ?case by (simp add: board_set_def Let_def)
qed

lemma footprint_iff:
  "((c, r) \<in> footprint m x y)
     = (\<exists>i<16. bit m (15 - i) \<and> x + int (i mod 4) = c \<and> y + int (i div 4) = r)"
  by (auto simp: footprint_def)

lemma addresses_footprint:
  assumes "is_i64 x" "is_i64 y" "r < 20" "c < 10"
  shows "(\<exists>i\<in>set [0..<16]. addresses m x y i c r) = ((int c, int r) \<in> footprint m x y)"
proof -
  have "\<And>i. i < 16 \<Longrightarrow> addresses m x y i c r
      = (bit m (15 - i) \<and> x + int (i mod 4) = int c \<and> y + int (i div 4) = int r)"
  proof -
    fix i :: nat assume "i < 16"
    then have k: "int (i mod 4) \<le> 3" "int (i div 4) \<le> 3" by simp_all
    have "(add64 x (int (i mod 4)) = int c) = (x + int (i mod 4) = int c)"
      using assms(1,4) k(1) by (intro add64_eq_cell) simp_all
    moreover have "(add64 y (int (i div 4)) = int r) = (y + int (i div 4) = int r)"
      using assms(2,3) k(2) by (intro add64_eq_cell) simp_all
    ultimately show "addresses m x y i c r
      = (bit m (15 - i) \<and> x + int (i mod 4) = int c \<and> y + int (i div 4) = int r)"
      by (simp add: addresses_def)
  qed
  then have "(\<exists>i<16. addresses m x y i c r)
      = (\<exists>i<16. bit m (15 - i) \<and> x + int (i mod 4) = int c \<and> y + int (i div 4) = int r)"
    by blast
  then show ?thesis by (simp add: footprint_iff Bex_def)
qed

lemma fixPiece_cells:
  assumes "wf_board (board g)" "is_i64 x" "is_i64 y"
  shows "\<exists>b'. fixPiece g m x y v = Inr (g\<lparr>board := b'\<rparr>) \<and> wf_board b' \<and>
          (\<forall>r<20. \<forall>c<10. b' ! r ! c =
             (if (int c, int r) \<in> footprint m x y then v else board g ! r ! c))"
proof -
  from fixPiece_loop_cells[OF assms(1), of m x y v "[0..<16]"]
  obtain b' where b': "fixPiece_loop m x y v [0..<16] (board g) = Inr b'" "wf_board b'"
    "\<forall>r<20. \<forall>c<10. b' ! r ! c =
       (if \<exists>i\<in>set [0..<16]. addresses m x y i c r then v else board g ! r ! c)"
    by blast
  have "\<forall>r<20. \<forall>c<10. b' ! r ! c =
       (if (int c, int r) \<in> footprint m x y then v else board g ! r ! c)"
    using b'(3) addresses_footprint[OF assms(2,3)] by simp
  with b'(1,2) show ?thesis by (intro exI[of _ b']) (simp add: fixPiece_def)
qed

lemma inBoard_nat:
  "inBoard c r = (0 \<le> c \<and> 0 \<le> r \<and> nat c < 10 \<and> nat r < 20)"
  by (auto simp: inBoard_def gameGridWidth_def gameGridHeight_def)

text \<open>
  Claim C8. On a well-formed board and for every mask, every 64-bit origin and every cell
  state, \<^verbatim>\<open>fixPiece\<close> returns without a fault; in the new board a cell within bounds
  holds the given state when it is in the footprint of the mask, and its old content
  otherwise. Bits that map outside the board change nothing, and the piece and the
  cancellation flag are untouched.
\<close>

theorem fixPiece_stamps_footprint:
  assumes "wf_board (board g)" and "is_i64 x" and "is_i64 y"
  shows "\<exists>g'. fixPiece g m x y v = Inr g' \<and> wf_board (board g')
           \<and> piece g' = piece g \<and> cancelled g' = cancelled g
           \<and> (\<forall>c r. inBoard c r \<longrightarrow>
                 cellAt (board g') c r
                   = (if (c, r) \<in> footprint m x y then v else cellAt (board g) c r))"
proof -
  from fixPiece_cells[OF assms, of m v] obtain b' where
    b': "fixPiece g m x y v = Inr (g\<lparr>board := b'\<rparr>)" "wf_board b'"
    "\<forall>r<20. \<forall>c<10. b' ! r ! c =
       (if (int c, int r) \<in> footprint m x y then v else board g ! r ! c)"
    by blast
  have "\<forall>c r. inBoard c r \<longrightarrow>
          cellAt b' c r = (if (c, r) \<in> footprint m x y then v else cellAt (board g) c r)"
  proof (intro allI impI)
    fix c r :: int assume "inBoard c r"
    then have n: "0 \<le> c" "0 \<le> r" "nat c < 10" "nat r < 20" by (simp_all add: inBoard_nat)
    with b'(3) have "b' ! nat r ! nat c =
       (if (int (nat c), int (nat r)) \<in> footprint m x y then v else board g ! nat r ! nat c)"
      by blast
    then show "cellAt b' c r = (if (c, r) \<in> footprint m x y then v else cellAt (board g) c r)"
      using n(1,2) by (simp add: cellAt_def)
  qed
  with b'(1,2) show ?thesis by simp
qed

lemma footprint_bar:
  "(0, 1) \<in> footprint 0x0F00 (- 2) 0" "(1, 1) \<in> footprint 0x0F00 (- 2) 0"
  "(2, 1) \<notin> footprint 0x0F00 (- 2) 0"
proof -
  show "(0, 1) \<in> footprint 0x0F00 (- 2) 0"
    unfolding footprint_iff by (rule exI[of _ 6]) simp
  show "(1, 1) \<in> footprint 0x0F00 (- 2) 0"
    unfolding footprint_iff by (rule exI[of _ 7]) simp
  have "\<And>i::nat. - 2 + int (i mod 4) \<noteq> 2"
  proof -
    fix i :: nat
    have "int (i mod 4) < 4" by simp
    then show "- 2 + int (i mod 4) \<noteq> 2" by linarith
  qed
  then show "(2, 1) \<notin> footprint 0x0F00 (- 2) 0"
    unfolding footprint_iff by blast
qed

theorem fixPiece_stamps_footprint_witness:
  "wf_board (board demoGame) \<and> is_i64 (- 2) \<and> is_i64 0
   \<and> (\<exists>g'. fixPiece demoGame 0x0F00 (- 2) 0 FixedState = Inr g'
          \<and> cellAt (board g') 0 1 = FixedState \<and> cellAt (board g') 1 1 = FixedState
          \<and> cellAt (board g') 2 1 = cellAt (board demoGame) 2 1)"
proof -
  have h: "wf_board (board demoGame)" "is_i64 (- 2)" "is_i64 0"
    by (simp_all add: demoGame_def wf_board_emptyBoard is_i64_def)
  have i: "inBoard 0 1" "inBoard 1 1" "inBoard 2 1"
    by (simp_all add: inBoard_def gameGridWidth_def gameGridHeight_def)
  from fixPiece_stamps_footprint[OF h, of "0x0F00" FixedState] obtain g' where
    g: "fixPiece demoGame 0x0F00 (- 2) 0 FixedState = Inr g'"
    and c: "\<forall>c r. inBoard c r \<longrightarrow> cellAt (board g') c r
         = (if (c, r) \<in> footprint 0x0F00 (- 2) 0 then FixedState else cellAt (board demoGame) c r)"
    by blast
  from c i footprint_bar have "cellAt (board g') 0 1 = FixedState"
    "cellAt (board g') 1 1 = FixedState" "cellAt (board g') 2 1 = cellAt (board demoGame) 2 1"
    by simp_all
  with g h show ?thesis by blast
qed

section \<open>Collision test\<close>

lemma board_get_ok:
  "isWithinBoard xx yy \<Longrightarrow> board_get b yy xx = Inr (cellAt b xx yy)"
  by (simp add: board_get_def isWithinBoard_def cellAt_def split: if_splits)

lemma hasCollision_loop_blocked:
  "hasCollision_loop b m x y js = Inr (\<exists>i\<in>set js. blocked b m x y i)"
proof (induction js)
  case Nil
  then show ?case by simp
next
  case (Cons i js)
  show ?case
  proof (cases "blocked b m x y i")
    case True
    then show ?thesis
      by (auto simp: blocked_def mask_bit_exp Let_def board_get_ok)
  next
    case False
    then have "hasCollision_loop b m x y (i # js) = hasCollision_loop b m x y js"
      by (auto simp: blocked_def mask_bit_exp Let_def board_get_ok)
    with False Cons.IH show ?thesis by simp
  qed
qed

lemma isWithinBoard_add64:
  assumes "is_i64 x" "is_i64 y" "0 \<le> k" "k \<le> 3" "0 \<le> l" "l \<le> 3"
  shows "isWithinBoard (add64 x k) (add64 y l) = inBoard (x + k) (y + l)"
    and "inBoard (x + k) (y + l) \<Longrightarrow> add64 x k = x + k"
    and "inBoard (x + k) (y + l) \<Longrightarrow> add64 y l = y + l"
proof -
  have wx: "(0 \<le> add64 x k \<and> add64 x k < 10) = (0 \<le> x + k \<and> x + k < 10)"
    by (rule add64_in_range(1)[OF assms(1,3,4)]) simp_all
  have wy: "(0 \<le> add64 y l \<and> add64 y l < 20) = (0 \<le> y + l \<and> y + l < 20)"
    by (rule add64_in_range(1)[OF assms(2,5,6)]) simp_all
  have ex: "0 \<le> add64 x k \<and> add64 x k < 10 \<Longrightarrow> add64 x k = x + k"
    by (rule add64_in_range(2)[OF assms(1,3,4), of 10, rotated 2]) simp_all
  have ey: "0 \<le> add64 y l \<and> add64 y l < 20 \<Longrightarrow> add64 y l = y + l"
    by (rule add64_in_range(2)[OF assms(2,5,6), of 20, rotated 2]) simp_all
  have "isWithinBoard (add64 x k) (add64 y l)
      = ((0 \<le> add64 x k \<and> add64 x k < 10) \<and> (0 \<le> add64 y l \<and> add64 y l < 20))"
    by (simp add: isWithinBoard_def gameGridWidth_def gameGridHeight_def)
  also have "\<dots> = ((0 \<le> x + k \<and> x + k < 10) \<and> (0 \<le> y + l \<and> y + l < 20))"
    by (simp only: wx wy)
  also have "\<dots> = inBoard (x + k) (y + l)"
    by (simp add: inBoard_def gameGridWidth_def gameGridHeight_def)
  finally show "isWithinBoard (add64 x k) (add64 y l) = inBoard (x + k) (y + l)" .
  assume i: "inBoard (x + k) (y + l)"
  then have "0 \<le> x + k \<and> x + k < 10" "0 \<le> y + l \<and> y + l < 20"
    by (simp_all add: inBoard_def gameGridWidth_def gameGridHeight_def)
  then have "0 \<le> add64 x k \<and> add64 x k < 10" "0 \<le> add64 y l \<and> add64 y l < 20"
    by (simp_all only: wx wy)
  then show "add64 x k = x + k" "add64 y l = y + l" using ex ey by blast+
qed

lemma blocked_unwrapped:
  assumes "is_i64 x" "is_i64 y" "i < 16"
  shows "blocked b m x y i
     = (bit m (15 - i) \<and> (\<not> inBoard (x + int (i mod 4)) (y + int (i div 4))
          \<or> cellAt b (x + int (i mod 4)) (y + int (i div 4)) = FixedState))"
proof -
  define k l where "k = int (i mod 4)" and "l = int (i div 4)"
  have k: "0 \<le> k" "k \<le> 3" "0 \<le> l" "l \<le> 3" using assms(3) by (simp_all add: k_def l_def)
  note w = isWithinBoard_add64[OF assms(1,2) k]
  have "(bit m (15 - i) \<and> (\<not> isWithinBoard (add64 x k) (add64 y l)
            \<or> cellAt b (add64 x k) (add64 y l) = FixedState))
     = (bit m (15 - i) \<and> (\<not> inBoard (x + k) (y + l) \<or> cellAt b (x + k) (y + l) = FixedState))"
  proof (cases "inBoard (x + k) (y + l)")
    case True
    then show ?thesis using w(2,3) w(1) by simp
  next
    case False
    then show ?thesis using w(1) by simp
  qed
  then show ?thesis unfolding blocked_def k_def l_def .
qed

lemma blocked_footprint:
  assumes "is_i64 x" "is_i64 y"
  shows "(\<exists>i\<in>set [0..<16]. blocked b m x y i)
     = (\<exists>(c, r)\<in>footprint m x y. \<not> inBoard c r \<or> cellAt b c r = FixedState)"
proof -
  have "(\<exists>i<16. blocked b m x y i)
     = (\<exists>i<16. bit m (15 - i) \<and> (\<not> inBoard (x + int (i mod 4)) (y + int (i div 4))
          \<or> cellAt b (x + int (i mod 4)) (y + int (i div 4)) = FixedState))"
    using blocked_unwrapped[OF assms] by blast
  also have "\<dots> = (\<exists>(c, r)\<in>footprint m x y. \<not> inBoard c r \<or> cellAt b c r = FixedState)"
    unfolding footprint_def by auto
  finally show ?thesis by (simp add: Bex_def)
qed

text \<open>
  Claim C4. For every 64-bit origin and every board, \<^verbatim>\<open>hasCollision\<close> (on the mask that
  the shape table gives for the rotation index) returns true if and only if some cell of
  the mask's footprint is outside the board or holds \<open>FixedState\<close>. The same holds of its
  loop for every mask. A footprint inside the board on cells that are empty or falling
  gives false. The function returns a boolean only: the game is not changed.
\<close>

theorem hasCollision_iff:
  assumes "is_i64 x" and "is_i64 y"
  shows "hasCollision_loop b m x y [0..<16]
           = Inr (\<exists>(c, r)\<in>footprint m x y. \<not> inBoard c r \<or> cellAt b c r = FixedState)
       \<and> hasCollision g x y p
           = (case lookupShape (curShape g) p of
                Inl e \<Rightarrow> Inl e
              | Inr m' \<Rightarrow> Inr (\<exists>(c, r)\<in>footprint m' x y.
                                 \<not> inBoard c r \<or> cellAt (board g) c r = FixedState))
       \<and> ((\<forall>(c, r)\<in>footprint m x y. inBoard c r
               \<and> (cellAt b c r = FallingState \<or> cellAt b c r = EmptyState))
            \<longrightarrow> hasCollision_loop b m x y [0..<16] = Inr False)"
proof -
  have 1: "\<And>b m. hasCollision_loop b m x y [0..<16]
           = Inr (\<exists>(c, r)\<in>footprint m x y. \<not> inBoard c r \<or> cellAt b c r = FixedState)"
    by (simp only: hasCollision_loop_blocked blocked_footprint[OF assms])
  have 2: "hasCollision g x y p
           = (case lookupShape (curShape g) p of
                Inl e \<Rightarrow> Inl e
              | Inr m' \<Rightarrow> Inr (\<exists>(c, r)\<in>footprint m' x y.
                                 \<not> inBoard c r \<or> cellAt (board g) c r = FixedState))"
    unfolding hasCollision_def by (simp only: 1)
  have 3: "(\<forall>(c, r)\<in>footprint m x y. inBoard c r
               \<and> (cellAt b c r = FallingState \<or> cellAt b c r = EmptyState))
            \<longrightarrow> hasCollision_loop b m x y [0..<16] = Inr False"
    unfolding 1 by auto
  from 1 2 3 show ?thesis by blast
qed

text \<open>
  Claim C10. For every origin, also one off the board or outside the 64-bit range, and
  for every board, mask and state: \<^verbatim>\<open>fixPiece\<close> returns a game, and \<^verbatim>\<open>hasCollision\<close>
  never ends in the out-of-range fault of a board access (its only fault is an index
  outside the shape table). Each read and write of the board is guarded by the bounds
  test before it, so the fault branch of \<open>board_get\<close> and \<open>board_set\<close> is never taken.
\<close>

theorem board_access_in_range:
  "(\<exists>g'. fixPiece g m x y v = Inr g')
   \<and> (\<exists>c. hasCollision_loop b m x y js = Inr c)
   \<and> hasCollision g x y p \<noteq> Inl BoardIndexOutOfRange"
proof -
  obtain b' where "fixPiece_loop m x y v [0..<16] (board g) = Inr b'"
    using fixPiece_loop_total by blast
  then have 1: "\<exists>g'. fixPiece g m x y v = Inr g'" by (simp add: fixPiece_def)
  have 2: "\<And>b m js. \<exists>c. hasCollision_loop b m x y js = Inr c"
    by (simp add: hasCollision_loop_blocked)
  have 3: "hasCollision g x y p \<noteq> Inl BoardIndexOutOfRange"
    by (auto simp: hasCollision_def hasCollision_loop_blocked lookupShape_def
        split: sum.splits if_splits)
  from 1 2 3 show ?thesis by blast
qed

lemma bit_bar: "bit (0x0F00::int) n = (8 \<le> n \<and> n < 12)"
proof -
  have "(0x0F00::int) = push_bit 8 (mask 4)"
    by (simp add: mask_eq_exp_minus_1 push_bit_eq_mult)
  then show ?thesis
    by (simp only: bit_push_bit_iff bit_mask_iff) auto
qed

theorem hasCollision_iff_witness:
  "is_i64 0 \<and> is_i64 (- 1)
   \<and> hasCollision demoGame 0 (- 1) 0 = Inr False
   \<and> hasCollision_loop emptyBoard 0x0F00 0 (- 1) [0..<16] = Inr False"
proof -
  have h: "is_i64 0" "is_i64 (- 1)" by (simp_all add: is_i64_def)
  have l: "lookupShape (curShape demoGame) 0 = Inr 0x0F00"
    by (simp add: lookupShape_def shapes_def demoGame_def)
  have e: "\<And>c r. inBoard c r \<Longrightarrow> cellAt emptyBoard c r = EmptyState"
    by (simp add: inBoard_nat cellAt_def emptyBoard_def gameGridWidth_def gameGridHeight_def)
  have f: "\<forall>(c, r)\<in>footprint 0x0F00 0 (- 1). inBoard c r"
  proof -
    have "\<And>i::nat. i < 16 \<Longrightarrow> bit (0x0F00::int) (15 - i) \<Longrightarrow> i div 4 = 1"
    proof -
      fix i :: nat assume i: "i < 16" "bit (0x0F00::int) (15 - i)"
      from i(2) have "8 \<le> 15 - i \<and> 15 - i < 12" by (simp only: bit_bar)
      then show "i div 4 = 1" by linarith
    qed
    then show ?thesis
      by (auto simp: footprint_iff inBoard_def gameGridWidth_def gameGridHeight_def)
  qed
  have a: "\<forall>(c, r)\<in>footprint 0x0F00 0 (- 1). inBoard c r
      \<and> (cellAt emptyBoard c r = FallingState \<or> cellAt emptyBoard c r = EmptyState)"
    using f e by blast
  note t = hasCollision_iff[OF h, of emptyBoard "0x0F00" demoGame 0]
  from t a have 1: "hasCollision_loop emptyBoard 0x0F00 0 (- 1) [0..<16] = Inr False"
    by blast
  from t have "hasCollision demoGame 0 (- 1) 0
      = Inr (\<exists>(c, r)\<in>footprint 0x0F00 0 (- 1).
               \<not> inBoard c r \<or> cellAt (board demoGame) c r = FixedState)"
    by (simp add: l)
  moreover have "board demoGame = emptyBoard" by (simp add: demoGame_def)
  ultimately have 2: "hasCollision demoGame 0 (- 1) 0 = Inr False"
    using f e by auto
  from h 1 2 show ?thesis by blast
qed

end
